theory Spec2Isabelle
  imports Main "HOL-Library.AList"
begin

section \<open>Python string primitives\<close>

text \<open>
  A Python \<open>str\<close> is modelled as a \<open>string\<close>: each HOL character stands for one code
  point in the range 0..255. On that range \<open>str.isspace\<close> holds for the code points
  9..13, 28..32, 133 and 160, and the regular expression class \<open>\d\<close> holds exactly for
  the ASCII digits.
\<close>

definition NL :: char where
  "NL = CHR 0x0A"

definition is_space :: "char \<Rightarrow> bool" where
  "is_space c = (of_char c \<in> set [9, 10, 11, 12, 13, 28, 29, 30, 31, 32, 133, 160 :: nat])"

definition is_digit :: "char \<Rightarrow> bool" where
  "is_digit c = (48 \<le> (of_char c :: nat) \<and> (of_char c :: nat) \<le> 57)"

text \<open>\<open>s.lstrip()\<close>, \<open>s.rstrip()\<close>, \<open>s.strip()\<close> and \<open>s.lstrip('\n')\<close>.\<close>

definition lstrip :: "string \<Rightarrow> string" where
  "lstrip s = dropWhile is_space s"

definition rstrip :: "string \<Rightarrow> string" where
  "rstrip s = rev (dropWhile is_space (rev s))"

definition strip :: "string \<Rightarrow> string" where
  "strip s = rstrip (lstrip s)"

definition lstrip_nl :: "string \<Rightarrow> string" where
  "lstrip_nl s = dropWhile (\<lambda>c. c = NL) s"

text \<open>\<open>s.startswith(p)\<close> and \<open>s.endswith(p)\<close>.\<close>

definition startswith :: "string \<Rightarrow> string \<Rightarrow> bool" where
  "startswith s p = (take (length p) s = p)"

definition endswith :: "string \<Rightarrow> string \<Rightarrow> bool" where
  "endswith s p = (length p \<le> length s \<and> drop (length s - length p) s = p)"

text \<open>\<open>sep.join(xs)\<close>.\<close>

fun join :: "string \<Rightarrow> string list \<Rightarrow> string" where
  "join sep [] = []"
| "join sep [x] = x"
| "join sep (x # y # ys) = x @ sep @ join sep (y # ys)"

text \<open>
  \<open>s.split('\n')\<close>: the pieces between the newlines, always at least one piece.
  \<open>cur\<close> holds the characters of the piece being read.
\<close>

fun split_go :: "char \<Rightarrow> string \<Rightarrow> string \<Rightarrow> string list" where
  "split_go c cur [] = [cur]"
| "split_go c cur (x # xs) =
     (if x = c then cur # split_go c [] xs else split_go c (cur @ [x]) xs)"

definition split_nl :: "string \<Rightarrow> string list" where
  "split_nl s = split_go NL [] s"

section \<open>Pairing aggregator (count\_pairs.py)\<close>

record pair_result =
  root :: string
  commentaries :: "string list"
  pairs :: nat
  ptype :: string

record report =
  total_root_files :: nat
  root_only_count :: nat
  single_pair_count :: nat
  multiple_pair_count :: nat
  total_pairs :: nat
  results :: "pair_result list"

text \<open>\<open>root_file[:-5]\<close>: all but the last five characters (empty when there are fewer).\<close>

definition root_prefix :: "string \<Rightarrow> string" where
  "root_prefix root_file = take (length root_file - 5) root_file"

text \<open>The list comprehension of lines 43-45.\<close>

definition find_commentaries :: "string list \<Rightarrow> string \<Rightarrow> string list" where
  "find_commentaries files prefix =
     filter (\<lambda>f. startswith f (prefix @ ''_'') \<and> \<not> endswith f ''_root'') files"

text \<open>
  One iteration of the loop of lines 38-69. The loop state is the record of the four
  counters and the result list; \<open>total_root_files\<close> is only set at the end.
\<close>

definition count_step :: "string list \<Rightarrow> report \<Rightarrow> string \<Rightarrow> report" where
  "count_step files st root_file =
     (let prefix = root_prefix root_file;
          comms = find_commentaries files prefix;
          num_commentaries = length comms
      in if num_commentaries = 0 then
           st\<lparr>root_only_count := root_only_count st + 1,
              results := results st @
                [\<lparr>root = root_file, commentaries = comms, pairs = 0, ptype = ''root-only''\<rparr>]\<rparr>
         else if num_commentaries = 1 then
           st\<lparr>single_pair_count := single_pair_count st + 1,
              total_pairs := total_pairs st + 1,
              results := results st @
                [\<lparr>root = root_file, commentaries = comms, pairs = 1, ptype = ''single-pair''\<rparr>]\<rparr>
         else
           st\<lparr>multiple_pair_count := multiple_pair_count st + 1,
              total_pairs := total_pairs st + num_commentaries,
              results := results st @
                [\<lparr>root = root_file, commentaries = comms, pairs = num_commentaries,
                  ptype = ''multiple-pairs''\<rparr>]\<rparr>)"

definition init_report :: report where
  "init_report = \<lparr>total_root_files = 0, root_only_count = 0, single_pair_count = 0,
     multiple_pair_count = 0, total_pairs = 0, results = []\<rparr>"

text \<open>
  The body of \<open>count_pairs_root_first\<close> after the directory has been listed: \<open>files\<close> is
  the listing in enumeration order.
\<close>

definition count_pairs_root_first :: "string list \<Rightarrow> report" where
  "count_pairs_root_first files =
     (let root_files = filter (\<lambda>f. endswith f ''_root'') files
      in (foldl (count_step files) init_report root_files)
           \<lparr>total_root_files := length root_files\<rparr>)"

text \<open>
  The whole function: a missing directory (\<open>FileNotFoundError\<close> from the listing, here
  \<open>None\<close>) returns \<open>None\<close> before anything is counted.
\<close>

definition count_pairs_dir :: "string list option \<Rightarrow> report option" where
  "count_pairs_dir listing = map_option count_pairs_root_first listing"


text \<open>
  Spec section 3: the category of a pairing record as a function of its pair count, used
  to compare the categories the loop assigns with the spec's table.
\<close>

definition spec_category :: "nat \<Rightarrow> string" where
  "spec_category n =
     (if n = 0 then ''root-only'' else if n = 1 then ''single-pair'' else ''multiple-pairs'')"

section \<open>Extraction scripts: what a run does\<close>

text \<open>
  A run of an extraction script is modelled by the list of its effects in program order:
  a unit written to its file (\<open>Saved key content\<close>; the file name is a fixed pattern around
  the key, for instance \<open>bca_p_<key>.txt\<close>), the warning for an empty section, the
  warning for an unexpected number of root lines (the count found and the verse counter),
  and the message that no verse was found. Reading the input and writing a file are
  taken to succeed; the scripts catch their failures and print an error.

  A function whose name occurs in two scripts carries the name of its script in front:
  \<open>bca_p_extract_commentary_sections\<close> and \<open>seni_extract_commentary_sections\<close>,
  \<open>seni_extract_root_verses\<close> and \<open>medu_extract_root_verses\<close>. The line-prefix script is
  the file whose name is \<open>medu\<close> with a macron on the \<open>u\<close>; its units are keyed by the verse
  counter.
\<close>

datatype 'k event = Saved 'k string | WarnEmpty 'k | WarnCount nat 'k | NoVerses

fun written :: "'k event list \<Rightarrow> ('k \<times> string) list" where
  "written [] = []"
| "written (Saved k c # es) = (k, c) # written es"
| "written (_ # es) = written es"

section \<open>Section-header dialect (bca\_p\_extraction.py, mua\_extraction.py, seni\_extract.py)\<close>

text \<open>\<open>\d+\<close> and \<open>\d+\.\d+\<close>, matched against a whole string.\<close>

definition is_num_key :: "string \<Rightarrow> bool" where
  "is_num_key k = (k \<noteq> [] \<and> list_all is_digit k)"

definition is_dotted_key :: "string \<Rightarrow> bool" where
  "is_dotted_key k =
     (let a = takeWhile is_digit k; r = dropWhile is_digit k
      in a \<noteq> [] \<and> (case r of [] \<Rightarrow> False
                    | c # b \<Rightarrow> c = CHR ''.'' \<and> b \<noteq> [] \<and> list_all is_digit b))"

text \<open>
  The pattern \<open>^--- (KEY)$\<close> under \<open>re.MULTILINE\<close>: \<open>^\<close> matches at the start of the
  text and after every newline, \<open>$\<close> at its end and before every newline, and the key
  contains no newline; so a match is a whole line of the text (the pieces between
  newlines) that reads \<open>--- \<close> followed by a key, and its group is the key.
\<close>

definition marker_key :: "(string \<Rightarrow> bool) \<Rightarrow> string \<Rightarrow> string option" where
  "marker_key is_key line =
     (if startswith line ''--- '' \<and> is_key (drop 4 line) then Some (drop 4 line) else None)"

text \<open>
  \<open>re.split\<close> with one group: the text before the first match, then for every match its
  group and the text up to the next match (or the end). \<open>cur\<close> holds the lines of the
  piece being read; the newline before a marker line belongs to the piece before it and
  the newline after a marker line to the piece after it.
\<close>

fun re_split_lines :: "(string \<Rightarrow> bool) \<Rightarrow> string list \<Rightarrow> string list \<Rightarrow> string list" where
  "re_split_lines is_key cur [] = [join [NL] cur]"
| "re_split_lines is_key cur (l # ls) =
     (case marker_key is_key l of
        Some k \<Rightarrow> join [NL] (cur @ ['''']) # k # re_split_lines is_key [''''] ls
      | None \<Rightarrow> re_split_lines is_key (cur @ [l]) ls)"

definition re_split_header :: "(string \<Rightarrow> bool) \<Rightarrow> string \<Rightarrow> string list" where
  "re_split_header is_key content = re_split_lines is_key [] (split_nl content)"

text \<open>\<open>if sections[0].strip() == '': sections = sections[1:]\<close>\<close>

definition drop_blank_head :: "string list \<Rightarrow> string list" where
  "drop_blank_head sections =
     (case sections of [] \<Rightarrow> [] | s # rest \<Rightarrow> if strip s = [] then rest else sections)"

text \<open>
  The loop \<open>for i in range(0, len(sections) - 1, 2)\<close> with \<open>section_number = sections[i]\<close>
  and \<open>section_content = sections[i + 1]\<close>: it walks the list two elements at a time and
  ignores a last element without a partner.
\<close>

fun process_sections :: "string list \<Rightarrow> string event list" where
  "process_sections (section_number # section_content # rest) =
     (let c = rstrip (lstrip_nl section_content)
      in (if strip c = [] then WarnEmpty section_number else Saved section_number c)
         # process_sections rest)"
| "process_sections _ = []"

definition bca_p_extract_commentary_sections :: "string \<Rightarrow> string event list" where
  "bca_p_extract_commentary_sections content =
     process_sections (drop_blank_head (re_split_header is_dotted_key content))"

definition extract_mua_commentary :: "string \<Rightarrow> string event list" where
  "extract_mua_commentary content =
     process_sections (drop_blank_head (re_split_header is_num_key content))"




section \<open>Verse-end dialect (bca\_root\_extract.py, seni\_extract.py)\<close>





text \<open>Lines 11-15 of seni\_extract.py.\<close>

fun seni_verse_lines :: "string list \<Rightarrow> string list" where
  "seni_verse_lines [] = []"
| "seni_verse_lines (line # rest) =
     (if startswith (strip line) ''>'' then strip (drop 1 (strip line)) # seni_verse_lines rest
      else seni_verse_lines rest)"

text \<open>
  \<open>re.search(r'\|\| SeNi (\d+) \|\|\s*$', line)\<close>: \<open>\s*\<close> takes all trailing whitespace,
  so the marker ends at the last character that is not whitespace; before its closing
  \<open> ||\<close> stands the run of digits, and before that \<open>|| SeNi \<close>.
\<close>

definition seni_marker :: "string \<Rightarrow> string option" where
  "seni_marker line =
     (let t = rstrip line
      in if endswith t '' ||'' then
           (let u = take (length t - 3) t;
                ds = rev (takeWhile is_digit (rev u));
                pre = take (length u - length ds) u
            in if ds \<noteq> [] \<and> endswith pre ''|| SeNi '' then Some ds else None)
         else None)"

text \<open>
  Lines 18-29: \<open>verses_dict\<close> is a Python dictionary, here an association list in
  insertion order; assigning to a key that is present replaces its value in place.
\<close>

fun seni_group :: "(string \<times> string) list \<Rightarrow> string list \<Rightarrow> string list \<Rightarrow> (string \<times> string) list" where
  "seni_group verses_dict current_verse [] = verses_dict"
| "seni_group verses_dict current_verse (line # rest) =
     (let current_verse' = current_verse @ [line]
      in case seni_marker line of
           Some verse_num \<Rightarrow>
             seni_group (AList.update verse_num (join [NL] current_verse') verses_dict) [] rest
         | None \<Rightarrow> seni_group verses_dict current_verse' rest)"

definition seni_extract_root_verses :: "string \<Rightarrow> string event list" where
  "seni_extract_root_verses content =
     map (\<lambda>(verse_num, verse_text). Saved verse_num verse_text)
       (seni_group [] [] (seni_verse_lines (split_nl content)))"

section \<open>Line-prefix dialect (medu.py)\<close>

text \<open>\<open>content.split('---')\<close>: the pieces between the occurrences found from the left.\<close>

fun split_dashes :: "string \<Rightarrow> string \<Rightarrow> string list" where
  "split_dashes cur [] = [cur]"
| "split_dashes cur (c # cs) =
     (if startswith (c # cs) ''---'' then cur # split_dashes [] (drop 2 cs)
      else split_dashes (cur @ [c]) cs)"

text \<open>Lines 57-63: the lines that start with \<open>>\<close>, without it, unless blank.\<close>

fun medu_root_lines :: "string list \<Rightarrow> string list" where
  "medu_root_lines [] = []"
| "medu_root_lines (line # rest) =
     (if startswith line ''>'' then
        (let root_line = drop 1 line
         in if strip root_line \<noteq> [] then root_line # medu_root_lines rest
            else medu_root_lines rest)
      else medu_root_lines rest)"

definition save_root_verse :: "string list \<Rightarrow> nat \<Rightarrow> nat event" where
  "save_root_verse verse_lines verse_number = Saved verse_number (strip (join [NL] verse_lines))"

text \<open>The loop of lines 45-73 with its counter.\<close>

fun medu_root_loop :: "nat \<Rightarrow> string list \<Rightarrow> nat event list" where
  "medu_root_loop verse_counter [] = []"
| "medu_root_loop verse_counter (section # rest) =
     (let section = strip section
      in if section = [] then medu_root_loop verse_counter rest
         else
           (let root_lines = medu_root_lines (split_nl section)
            in if length root_lines = 2 then
                 save_root_verse root_lines verse_counter
                 # medu_root_loop (verse_counter + 1) rest
               else if length root_lines > 0 then
                 WarnCount (length root_lines) verse_counter
                 # save_root_verse root_lines verse_counter
                 # medu_root_loop (verse_counter + 1) rest
               else medu_root_loop verse_counter rest))"

definition medu_extract_root_verses :: "string \<Rightarrow> nat event list" where
  "medu_extract_root_verses content = medu_root_loop 1 (split_dashes [] content)"

text \<open>Lines 185-188.\<close>

fun medu_commentary_lines :: "string list \<Rightarrow> string list" where
  "medu_commentary_lines [] = []"
| "medu_commentary_lines (line # rest) =
     (if line \<noteq> [] \<and> \<not> startswith line ''>'' then line # medu_commentary_lines rest
      else medu_commentary_lines rest)"

text \<open>The loop of lines 174-204 with its counter.\<close>

fun medu_commentary_loop :: "nat \<Rightarrow> string list \<Rightarrow> nat event list" where
  "medu_commentary_loop verse_counter [] = []"
| "medu_commentary_loop verse_counter (section # rest) =
     (let section = strip section
      in if section = [] then medu_commentary_loop verse_counter rest
         else
           (let commentary_lines = medu_commentary_lines (split_nl section)
            in if commentary_lines \<noteq> [] then
                 Saved verse_counter (strip (join [NL] commentary_lines))
                 # medu_commentary_loop (verse_counter + 1) rest
               else medu_commentary_loop (verse_counter + 1) rest))"

definition medu_extract_commentary :: "string \<Rightarrow> nat event list" where
  "medu_extract_commentary content = medu_commentary_loop 1 (split_dashes [] content)"

section \<open>Auxiliary notions for the proofs\<close>

text \<open>The record the loop of \<open>count_pairs_root_first\<close> appends for one root file.\<close>

definition mk_result :: "string list \<Rightarrow> string \<Rightarrow> pair_result" where
  "mk_result files r =
     \<lparr>root = r, commentaries = find_commentaries files (root_prefix r),
      pairs = length (find_commentaries files (root_prefix r)),
      ptype = spec_category (length (find_commentaries files (root_prefix r)))\<rparr>"

definition is_multi :: "pair_result \<Rightarrow> bool" where
  "is_multi r = (ptype r = ''multiple-pairs'')"

text \<open>The invariant of the counting loop.\<close>

definition count_inv :: "report \<Rightarrow> bool" where
  "count_inv st \<longleftrightarrow>
     total_pairs st = single_pair_count st + sum_list (map pairs (filter is_multi (results st)))
   \<and> root_only_count st + single_pair_count st + multiple_pair_count st = length (results st)"


text \<open>
  What holds of every entry of \<open>verses_dict\<close>: its text is a run of verse lines of \<open>L\<close> whose
  last line carries the marker of the entry's key.
\<close>

definition seni_entry_ok :: "string list \<Rightarrow> string \<times> string \<Rightarrow> bool" where
  "seni_entry_ok L e \<longleftrightarrow>
     (\<exists>pre l. snd e = join [NL] (pre @ [l]) \<and> seni_marker l = Some (fst e) \<and> set (pre @ [l]) \<subseteq> set L)"

section \<open>Properties of the pairing aggregator\<close>

lemma startswith_iff: "startswith s p \<longleftrightarrow> (\<exists>t. s = p @ t)"
  unfolding startswith_def
  by (metis append_eq_conv_conj append_take_drop_id)

lemma endswith_iff: "endswith s p \<longleftrightarrow> (\<exists>t. s = t @ p)"
  unfolding endswith_def
proof
  assume "length p \<le> length s \<and> drop (length s - length p) s = p"
  then have "s = take (length s - length p) s @ p"
    by (metis append_take_drop_id)
  then show "\<exists>t. s = t @ p" ..
next
  assume "\<exists>t. s = t @ p"
  then show "length p \<le> length s \<and> drop (length s - length p) s = p" by auto
qed

lemma root_prefix_append: "endswith r ''_root'' \<Longrightarrow> r = root_prefix r @ ''_root''"
  by (auto simp: endswith_iff root_prefix_def)

lemma results_count_step:
  "results (count_step files st r) = results st @ [mk_result files r]"
  by (simp add: count_step_def mk_result_def spec_category_def Let_def)

lemma results_foldl:
  "results (foldl (count_step files) st rs) = results st @ map (mk_result files) rs"
  by (induction rs arbitrary: st) (simp_all add: results_count_step)

lemma results_count_pairs:
  "results (count_pairs_root_first files) =
     map (mk_result files) (filter (\<lambda>f. endswith f ''_root'') files)"
  by (simp add: count_pairs_root_first_def Let_def results_foldl init_report_def)

lemma count_inv_step: "count_inv st \<Longrightarrow> count_inv (count_step files st r)"
  by (simp add: count_inv_def count_step_def Let_def is_multi_def)

lemma count_inv_foldl: "count_inv st \<Longrightarrow> count_inv (foldl (count_step files) st rs)"
  by (induction rs arbitrary: st) (simp_all add: count_inv_step)

lemma count_inv_init: "count_inv init_report"
  by (simp add: count_inv_def init_report_def)

text \<open>
  C2: for every listing, \<open>total_pairs\<close> is \<open>single_pair_count\<close> plus the sum of the pair
  counts of the multiple-pairs records, and the three category counters add up to
  \<open>total_root_files\<close>.
\<close>

theorem C2_report_identities: 
  "total_pairs (count_pairs_root_first files) =
     single_pair_count (count_pairs_root_first files) +
     sum_list (map pairs (filter (\<lambda>r. ptype r = ''multiple-pairs'') (results (count_pairs_root_first files))))
   \<and> root_only_count (count_pairs_root_first files) + single_pair_count (count_pairs_root_first files)
       + multiple_pair_count (count_pairs_root_first files) = total_root_files (count_pairs_root_first files)"
proof -
  let ?rs = "filter (\<lambda>f. endswith f ''_root'') files"
  let ?st = "foldl (count_step files) init_report ?rs"
  have inv: "count_inv ?st" by (rule count_inv_foldl [OF count_inv_init])
  have len: "length (results ?st) = length ?rs"
    by (simp add: results_foldl init_report_def)
  have m: "is_multi = (\<lambda>r. ptype r = ''multiple-pairs'')"
    by (simp add: fun_eq_iff is_multi_def)
  from inv len show ?thesis
    by (simp add: count_pairs_root_first_def Let_def count_inv_def m)
qed

lemma total_pairs_step:
  "total_pairs st = sum_list (map pairs (results st))
     \<Longrightarrow> total_pairs (count_step files st r) = sum_list (map pairs (results (count_step files st r)))"
  by (simp add: count_step_def Let_def)

lemma total_pairs_foldl:
  "total_pairs st = sum_list (map pairs (results st))
     \<Longrightarrow> total_pairs (foldl (count_step files) st rs)
           = sum_list (map pairs (results (foldl (count_step files) st rs)))"
  by (induction rs arbitrary: st) (simp_all add: total_pairs_step)

lemma total_pairs_sum:
  "total_pairs (count_pairs_root_first files)
     = sum_list (map (\<lambda>r. length (find_commentaries files (root_prefix r)))
         (filter (\<lambda>f. endswith f ''_root'') files))"
proof -
  let ?rs = "filter (\<lambda>f. endswith f ''_root'') files"
  have "total_pairs (foldl (count_step files) init_report ?rs)
          = sum_list (map pairs (results (foldl (count_step files) init_report ?rs)))"
    by (rule total_pairs_foldl) (simp add: init_report_def)
  then show ?thesis
    by (simp add: count_pairs_root_first_def Let_def results_foldl init_report_def mk_result_def o_def)
qed

lemma scenario_set:
  assumes d: "distinct files"
      and s: "set files = {''x_1_root'', ''x_1_p'', ''x_1_q'', ''x_2_root''}"
  shows "length (find_commentaries files (root_prefix ''x_1_root'')) = 2"
    and "length (find_commentaries files (root_prefix ''x_2_root'')) = 0"
    and "set (filter (\<lambda>f. endswith f ''_root'') files) = {''x_1_root'', ''x_2_root''}"
proof -
  have "length (find_commentaries files (root_prefix ''x_1_root''))
          = card ({f. startswith f (root_prefix ''x_1_root'' @ ''_'') \<and> \<not> endswith f ''_root''} \<inter> set files)"
    unfolding find_commentaries_def by (rule distinct_length_filter [OF d])
  also have "\<dots> = 2"
    unfolding s by (simp add: Int_insert_right startswith_def endswith_def root_prefix_def)
  finally show "length (find_commentaries files (root_prefix ''x_1_root'')) = 2" .
  have "length (find_commentaries files (root_prefix ''x_2_root''))
          = card ({f. startswith f (root_prefix ''x_2_root'' @ ''_'') \<and> \<not> endswith f ''_root''} \<inter> set files)"
    unfolding find_commentaries_def by (rule distinct_length_filter [OF d])
  also have "\<dots> = 0"
    unfolding s by (simp add: Int_insert_right startswith_def endswith_def root_prefix_def)
  finally show "length (find_commentaries files (root_prefix ''x_2_root'')) = 0" .
  have "set (filter (\<lambda>f. endswith f ''_root'') files) = {f. endswith f ''_root''} \<inter> set files"
    by auto
  also have "\<dots> = {''x_1_root'', ''x_2_root''}"
    unfolding s by (simp add: Int_insert_right endswith_def)
  finally show "set (filter (\<lambda>f. endswith f ''_root'') files) = {''x_1_root'', ''x_2_root''}" .
qed

lemma scenario_total:
  assumes d: "distinct files"
      and s: "set files = {''x_1_root'', ''x_1_p'', ''x_1_q'', ''x_2_root''}"
  shows "total_pairs (count_pairs_root_first files) = 2"
proof -
  let ?g = "\<lambda>r. length (find_commentaries files (root_prefix r))"
  let ?rs = "filter (\<lambda>f. endswith f ''_root'') files"
  have dr: "distinct ?rs" using d by simp
  have "sum_list (map ?g ?rs) = sum ?g (set ?rs)"
    by (rule sum_list_distinct_conv_sum_set [OF dr])
  also have "\<dots> = sum ?g {''x_1_root'', ''x_2_root''}"
    by (simp only: scenario_set(3) [OF d s])
  also have "\<dots> = ?g ''x_1_root'' + ?g ''x_2_root''" by simp
  also have "\<dots> = 2" by (simp only: scenario_set(1,2) [OF d s])
  finally show ?thesis by (simp only: total_pairs_sum)
qed


lemma scenario_records:
  assumes d: "distinct files"
      and s: "set files = {''x_1_root'', ''x_1_p'', ''x_1_q'', ''x_2_root''}"
      and r: "r \<in> set (results (count_pairs_root_first files))"
  shows "(root r = ''x_1_root'' \<and> pairs r = 2 \<and> ptype r = ''multiple-pairs'')
       \<or> (root r = ''x_2_root'' \<and> pairs r = 0 \<and> ptype r = ''root-only'')"
proof -
  from r obtain f where f: "f \<in> set (filter (\<lambda>f. endswith f ''_root'') files)"
      and m: "r = mk_result files f"
    unfolding results_count_pairs by auto
  from f have "f = ''x_1_root'' \<or> f = ''x_2_root''"
    unfolding scenario_set(3) [OF d s] by simp
  then show ?thesis
  proof
    assume a: "f = ''x_1_root''"
    have "root r = ''x_1_root'' \<and> pairs r = 2 \<and> ptype r = ''multiple-pairs''"
      unfolding m a mk_result_def by (simp add: scenario_set(1) [OF d s] spec_category_def)
    then show ?thesis by (rule disjI1)
  next
    assume a: "f = ''x_2_root''"
    have "root r = ''x_2_root'' \<and> pairs r = 0 \<and> ptype r = ''root-only''"
      unfolding m a mk_result_def by (simp add: scenario_set(2) [OF d s] spec_category_def)
    then show ?thesis by (rule disjI2)
  qed
qed

lemma scenario_roots:
  assumes d: "distinct files"
      and s: "set files = {''x_1_root'', ''x_1_p'', ''x_1_q'', ''x_2_root''}"
  shows "set (map root (results (count_pairs_root_first files))) = {''x_1_root'', ''x_2_root''}"
proof -
  have "map root (results (count_pairs_root_first files)) = filter (\<lambda>f. endswith f ''_root'') files"
    by (simp add: results_count_pairs mk_result_def o_def)
  then show ?thesis by (simp only: scenario_set(3) [OF d s])
qed

text \<open>
  C1: for every listing, the records are those of the identifiers ending in \<open>_root\<close>, in
  listing order; each root is its prefix followed by \<open>_root\<close>, its commentaries are exactly
  the identifiers that start with the prefix and \<open>_\<close> and do not end in \<open>_root\<close>, its pair
  count is their number and its category depends on that number only. The listing
  \<open>x_1_root, x_1_p, x_1_q, x_2_root\<close> gives two matches (multiple-pairs) for \<open>x_1_root\<close>,
  none (root-only) for \<open>x_2_root\<close>, and two pairs in total, in whatever order the four
  identifiers are listed.
\<close>

theorem C1_pairing_matches:
  "map root (results (count_pairs_root_first files)) = filter (\<lambda>f. endswith f ''_root'') files
   \<and> (\<forall>r \<in> set (results (count_pairs_root_first files)).
        root r = root_prefix (root r) @ ''_root''
      \<and> commentaries r =
          filter (\<lambda>f. startswith f (root_prefix (root r) @ ''_'') \<and> \<not> endswith f ''_root'') files
      \<and> pairs r = length (commentaries r)
      \<and> ptype r = spec_category (pairs r))
   \<and> results (count_pairs_root_first [''x_1_root'', ''x_1_p'', ''x_1_q'', ''x_2_root'']) =
        [\<lparr>root = ''x_1_root'', commentaries = [''x_1_p'', ''x_1_q''], pairs = 2,
           ptype = ''multiple-pairs''\<rparr>,
         \<lparr>root = ''x_2_root'', commentaries = [], pairs = 0, ptype = ''root-only''\<rparr>]
   \<and> (distinct files \<and> set files = {''x_1_root'', ''x_1_p'', ''x_1_q'', ''x_2_root''} \<longrightarrow>
        total_pairs (count_pairs_root_first files) = 2
      \<and> set (map root (results (count_pairs_root_first files))) = {''x_1_root'', ''x_2_root''}
      \<and> (\<forall>r \<in> set (results (count_pairs_root_first files)).
            (root r = ''x_1_root'' \<and> pairs r = 2 \<and> ptype r = ''multiple-pairs'')
          \<or> (root r = ''x_2_root'' \<and> pairs r = 0 \<and> ptype r = ''root-only'')))"
proof (intro conjI ballI impI)
  show "map root (results (count_pairs_root_first files)) = filter (\<lambda>f. endswith f ''_root'') files"
    by (simp add: results_count_pairs mk_result_def o_def)
next
  fix r assume "r \<in> set (results (count_pairs_root_first files))"
  then obtain f where f: "f \<in> set files" "endswith f ''_root''" and r: "r = mk_result files f"
    by (auto simp: results_count_pairs)
  show "root r = root_prefix (root r) @ ''_root''"
    using root_prefix_append [OF f(2)] by (simp add: r mk_result_def)
  show "commentaries r =
          filter (\<lambda>f. startswith f (root_prefix (root r) @ ''_'') \<and> \<not> endswith f ''_root'') files"
    by (simp add: r mk_result_def find_commentaries_def)
  show "pairs r = length (commentaries r)" by (simp add: r mk_result_def)
  show "ptype r = spec_category (pairs r)" by (simp add: r mk_result_def)
next
  show "results (count_pairs_root_first [''x_1_root'', ''x_1_p'', ''x_1_q'', ''x_2_root'']) =
        [\<lparr>root = ''x_1_root'', commentaries = [''x_1_p'', ''x_1_q''], pairs = 2,
           ptype = ''multiple-pairs''\<rparr>,
         \<lparr>root = ''x_2_root'', commentaries = [], pairs = 0, ptype = ''root-only''\<rparr>]"
    by (simp add: count_pairs_root_first_def count_step_def init_report_def
        find_commentaries_def root_prefix_def startswith_def endswith_def)
next
  assume a: "distinct files \<and> set files = {''x_1_root'', ''x_1_p'', ''x_1_q'', ''x_2_root''}"
  show "total_pairs (count_pairs_root_first files) = 2"
    by (rule scenario_total [OF conjunct1 [OF a] conjunct2 [OF a]])
  show "set (map root (results (count_pairs_root_first files))) = {''x_1_root'', ''x_2_root''}"
    by (rule scenario_roots [OF conjunct1 [OF a] conjunct2 [OF a]])
next
  fix r
  assume a: "distinct files \<and> set files = {''x_1_root'', ''x_1_p'', ''x_1_q'', ''x_2_root''}"
    and r: "r \<in> set (results (count_pairs_root_first files))"
  show "(root r = ''x_1_root'' \<and> pairs r = 2 \<and> ptype r = ''multiple-pairs'')
          \<or> (root r = ''x_2_root'' \<and> pairs r = 0 \<and> ptype r = ''root-only'')"
    by (rule scenario_records [OF conjunct1 [OF a] conjunct2 [OF a] r])
qed

theorem C1_pairing_matches_witness:
  "\<lparr>root = ''x_1_root'', commentaries = [''x_1_p'', ''x_1_q''], pairs = 2,
     ptype = ''multiple-pairs''\<rparr>
     \<in> set (results (count_pairs_root_first [''x_1_root'', ''x_1_p'', ''x_1_q'', ''x_2_root'']))
   \<and> ''multiple-pairs'' = spec_category 2
   \<and> ''x_1_root'' = root_prefix ''x_1_root'' @ ''_root''
   \<and> distinct [''x_2_root'', ''x_1_q'', ''x_1_root'', ''x_1_p'']
   \<and> set [''x_2_root'', ''x_1_q'', ''x_1_root'', ''x_1_p'']
        = {''x_1_root'', ''x_1_p'', ''x_1_q'', ''x_2_root''}
   \<and> total_pairs (count_pairs_root_first [''x_2_root'', ''x_1_q'', ''x_1_root'', ''x_1_p'']) = 2"
proof -
  let ?L = "[''x_1_root'', ''x_1_p'', ''x_1_q'', ''x_2_root'']"
  let ?M = "[''x_2_root'', ''x_1_q'', ''x_1_root'', ''x_1_p'']"
  let ?r = "\<lparr>root = ''x_1_root'', commentaries = [''x_1_p'', ''x_1_q''], pairs = 2,
     ptype = ''multiple-pairs''\<rparr>"
  note t = C1_pairing_matches [of ?L]
  note u = C1_pairing_matches [of ?M]
  have m: "?r \<in> set (results (count_pairs_root_first ?L))"
    unfolding t [THEN conjunct2, THEN conjunct2, THEN conjunct1] by simp
  have "root ?r = root_prefix (root ?r) @ ''_root''
      \<and> commentaries ?r =
          filter (\<lambda>f. startswith f (root_prefix (root ?r) @ ''_'') \<and> \<not> endswith f ''_root'') ?L
      \<and> pairs ?r = length (commentaries ?r)
      \<and> ptype ?r = spec_category (pairs ?r)"
    by (rule bspec [OF t [THEN conjunct2, THEN conjunct1] m])
  then have c: "''x_1_root'' = root_prefix ''x_1_root'' @ ''_root''"
    and k: "''multiple-pairs'' = spec_category 2"
    by simp_all
  have d: "distinct ?M" by simp
  have s: "set ?M = {''x_1_root'', ''x_1_p'', ''x_1_q'', ''x_2_root''}"
    by (simp add: insert_commute)
  have tp: "total_pairs (count_pairs_root_first ?M) = 2"
    by (rule mp [OF u [THEN conjunct2, THEN conjunct2, THEN conjunct2] conjI [OF d s],
          THEN conjunct1])
  from m k c d s tp show ?thesis by (intro conjI)
qed

theorem C2_report_identities_witness:
  "total_pairs (count_pairs_root_first [''x_1_root'', ''x_1_p'', ''x_1_q'', ''x_2_root'']) = 0 + 2
   \<and> total_root_files (count_pairs_root_first [''x_1_root'', ''x_1_p'', ''x_1_q'', ''x_2_root'']) = 1 + 0 + 1"
  using C2_report_identities [of "[''x_1_root'', ''x_1_p'', ''x_1_q'', ''x_2_root'']"]
  by (simp add: count_pairs_root_first_def count_step_def init_report_def
        find_commentaries_def root_prefix_def startswith_def endswith_def)

lemma startswith_trans:
  "startswith c (p2 @ s) \<Longrightarrow> startswith p2 p1 \<Longrightarrow> startswith c p1"
  by (auto simp: startswith_iff)

text \<open>
  C9: when the prefix of one root followed by \<open>_\<close> is a prefix of the prefix of another
  root, a commentary of the second root is also a commentary of the first; so
  \<open>total_pairs\<close> can exceed the number of distinct identifiers that are not roots.
\<close>

theorem C9_shared_commentary:
  "(r1 \<in> set files \<and> endswith r1 ''_root'' \<and> r2 \<in> set files \<and> endswith r2 ''_root''
     \<and> startswith (root_prefix r2) (root_prefix r1 @ ''_'')
     \<and> c \<in> set files \<and> startswith c (root_prefix r2 @ ''_'') \<and> \<not> endswith c ''_root''
    \<longrightarrow> (\<exists>x \<in> set (results (count_pairs_root_first files)). root x = r1 \<and> c \<in> set (commentaries x))
      \<and> (\<exists>y \<in> set (results (count_pairs_root_first files)). root y = r2 \<and> c \<in> set (commentaries y)))
   \<and> (\<exists>fs. distinct fs \<and>
         card {f \<in> set fs. \<not> endswith f ''_root''} < total_pairs (count_pairs_root_first fs))"
proof (intro conjI impI)
  assume a: "r1 \<in> set files \<and> endswith r1 ''_root'' \<and> r2 \<in> set files \<and> endswith r2 ''_root''
     \<and> startswith (root_prefix r2) (root_prefix r1 @ ''_'')
     \<and> c \<in> set files \<and> startswith c (root_prefix r2 @ ''_'') \<and> \<not> endswith c ''_root''"
  then have c1: "startswith c (root_prefix r1 @ ''_'')"
    using startswith_trans by blast
  from a c1 have "mk_result files r1 \<in> set (results (count_pairs_root_first files))
      \<and> root (mk_result files r1) = r1 \<and> c \<in> set (commentaries (mk_result files r1))"
    by (simp add: results_count_pairs mk_result_def find_commentaries_def)
  then show "\<exists>x \<in> set (results (count_pairs_root_first files)). root x = r1 \<and> c \<in> set (commentaries x)"
    by blast
  from a have "mk_result files r2 \<in> set (results (count_pairs_root_first files))
      \<and> root (mk_result files r2) = r2 \<and> c \<in> set (commentaries (mk_result files r2))"
    by (simp add: results_count_pairs mk_result_def find_commentaries_def)
  then show "\<exists>y \<in> set (results (count_pairs_root_first files)). root y = r2 \<and> c \<in> set (commentaries y)"
    by blast
next
  let ?fs = "[''x_1_root'', ''x_1_2_root'', ''x_1_2_p'']"
  have s: "{f \<in> set ?fs. \<not> endswith f ''_root''} = {''x_1_2_p''}"
    by (auto simp: endswith_def)
  have t: "total_pairs (count_pairs_root_first ?fs) = 2"
    by (simp add: count_pairs_root_first_def count_step_def init_report_def Let_def
        find_commentaries_def root_prefix_def startswith_def endswith_def)
  have "distinct ?fs \<and> card {f \<in> set ?fs. \<not> endswith f ''_root''} < total_pairs (count_pairs_root_first ?fs)"
    unfolding s t by simp
  then show "\<exists>fs. distinct fs \<and>
         card {f \<in> set fs. \<not> endswith f ''_root''} < total_pairs (count_pairs_root_first fs)"
    by blast
qed

theorem C9_shared_commentary_witness:
  "(\<exists>x \<in> set (results (count_pairs_root_first [''x_1_root'', ''x_1_2_root'', ''x_1_2_p''])).
      root x = ''x_1_root'' \<and> ''x_1_2_p'' \<in> set (commentaries x))
   \<and> (\<exists>y \<in> set (results (count_pairs_root_first [''x_1_root'', ''x_1_2_root'', ''x_1_2_p''])).
      root y = ''x_1_2_root'' \<and> ''x_1_2_p'' \<in> set (commentaries y))"
proof -
  have h: "''x_1_root'' \<in> set [''x_1_root'', ''x_1_2_root'', ''x_1_2_p''] \<and> endswith ''x_1_root'' ''_root''
     \<and> ''x_1_2_root'' \<in> set [''x_1_root'', ''x_1_2_root'', ''x_1_2_p''] \<and> endswith ''x_1_2_root'' ''_root''
     \<and> startswith (root_prefix ''x_1_2_root'') (root_prefix ''x_1_root'' @ ''_'')
     \<and> ''x_1_2_p'' \<in> set [''x_1_root'', ''x_1_2_root'', ''x_1_2_p'']
     \<and> startswith ''x_1_2_p'' (root_prefix ''x_1_2_root'' @ ''_'') \<and> \<not> endswith ''x_1_2_p'' ''_root''"
    by (simp add: endswith_def startswith_def root_prefix_def)
  from C9_shared_commentary [of "''x_1_root''" "[''x_1_root'', ''x_1_2_root'', ''x_1_2_p'']" "''x_1_2_root''" "''x_1_2_p''"] h
  show ?thesis by blast
qed

section \<open>Splitting and joining\<close>






lemma split_go_no_sep_all:
  "c \<notin> set cur \<Longrightarrow> \<forall>l \<in> set (split_go c cur s). c \<notin> set l"
proof (induction s arbitrary: cur)
  case Nil
  then show ?case by simp
next
  case (Cons x xs)
  show ?case
  proof (cases "x = c")
    case True
    then show ?thesis using Cons.IH [of "[]"] Cons.prems by simp
  next
    case False
    then show ?thesis using Cons.IH [of "cur @ [x]"] Cons.prems by simp
  qed
qed

lemma split_go_no_sep:
  "c \<notin> set cur \<Longrightarrow> l \<in> set (split_go c cur s) \<Longrightarrow> c \<notin> set l"
  using split_go_no_sep_all by blast

lemma split_nl_no_nl: "l \<in> set (split_nl s) \<Longrightarrow> NL \<notin> set l"
  unfolding split_nl_def by (rule split_go_no_sep [of NL "[]"]) auto

lemma split_go_plain: "c \<notin> set s \<Longrightarrow> split_go c cur s = [cur @ s]"
  by (induction s arbitrary: cur) auto

lemma split_go_append:
  "c \<notin> set a \<Longrightarrow> split_go c cur (a @ c # b) = (cur @ a) # split_go c [] b"
  by (induction a arbitrary: cur) auto

lemma split_go_join:
  "\<forall>l \<in> set (x # ls). c \<notin> set l \<Longrightarrow> split_go c cur (join [c] (x # ls)) = (cur @ x) # ls"
proof (induction ls arbitrary: x cur)
  case Nil
  then show ?case by (simp add: split_go_plain)
next
  case (Cons y ys)
  have "split_go c cur (x @ c # join [c] (y # ys)) = (cur @ x) # split_go c [] (join [c] (y # ys))"
    using Cons.prems by (intro split_go_append) simp
  also have "split_go c [] (join [c] (y # ys)) = y # ys"
    using Cons.IH [of y "[]"] Cons.prems by simp
  finally show ?case by simp
qed

lemma split_nl_join:
  "ls \<noteq> [] \<Longrightarrow> \<forall>l \<in> set ls. NL \<notin> set l \<Longrightarrow> split_nl (join [NL] ls) = ls"
  unfolding split_nl_def by (cases ls) (simp_all add: split_go_join [where cur = "[]", simplified])

lemma split_go_append_gen:
  "split_go c cur (a @ c # b) = split_go c cur a @ split_go c [] b"
  by (induction a arbitrary: cur) auto

lemma split_nl_append:
  "split_nl (a @ NL # b) = split_nl a @ split_nl b"
  unfolding split_nl_def by (rule split_go_append_gen)

section \<open>Properties of the section-header scripts\<close>


lemma startswith_drop: "startswith s p \<Longrightarrow> s = p @ drop (length p) s"
  by (auto simp: startswith_iff)

lemma marker_key_Some: "marker_key is_key l = Some k \<Longrightarrow> l = ''--- '' @ k \<and> is_key k"
proof -
  assume a: "marker_key is_key l = Some k"
  then have s: "startswith l ''--- ''" and k: "k = drop 4 l" and i: "is_key (drop 4 l)"
    by (auto simp: marker_key_def split: if_splits)
  have n: "length ''--- '' = 4" by simp
  from startswith_drop [OF s] have "l = ''--- '' @ drop 4 l" unfolding n .
  with k i show ?thesis by simp
qed



lemma re_split_lines_key:
  "re_split_lines is_key cur ls = s # k # rest \<Longrightarrow> is_key k"
proof (induction ls arbitrary: cur)
  case Nil
  then show ?case by simp
next
  case (Cons l ls)
  then show ?case
    by (cases "marker_key is_key l") (auto dest: marker_key_Some)
qed

lemma rstrip_id: "s = [] \<or> \<not> is_space (last s) \<Longrightarrow> rstrip s = s"
  unfolding rstrip_def
  by (cases s rule: rev_cases) auto

lemma lstrip_id: "s = [] \<or> \<not> is_space (hd s) \<Longrightarrow> lstrip s = s"
  unfolding lstrip_def by (cases s) auto

lemma lstrip_nl_id: "s = [] \<or> hd s \<noteq> NL \<Longrightarrow> lstrip_nl s = s"
  unfolding lstrip_nl_def by (cases s) auto

lemma strip_id: "s = [] \<or> (\<not> is_space (hd s) \<and> \<not> is_space (last s)) \<Longrightarrow> strip s = s"
  unfolding strip_def by (auto simp: lstrip_id rstrip_id)

lemma is_space_NL: "is_space NL"
  by (simp add: is_space_def NL_def)

lemma digit_not_space: "is_digit c \<Longrightarrow> \<not> is_space c"
  by (auto simp: is_digit_def is_space_def)

lemma dot_not_space: "\<not> is_space (CHR ''.'')"
  by (simp add: is_space_def)

lemma is_num_key_chars: "is_num_key k \<Longrightarrow> k \<noteq> [] \<and> (\<forall>c \<in> set k. \<not> is_space c)"
  by (auto simp: is_num_key_def list_all_iff digit_not_space)

lemma is_dotted_key_chars: "is_dotted_key k \<Longrightarrow> k \<noteq> [] \<and> (\<forall>c \<in> set k. \<not> is_space c)"
proof -
  assume a: "is_dotted_key k"
  have k: "k = takeWhile is_digit k @ dropWhile is_digit k" by simp
  from a obtain b where b: "takeWhile is_digit k \<noteq> []" "dropWhile is_digit k = CHR ''.'' # b"
      "list_all is_digit b"
    by (auto simp: is_dotted_key_def Let_def split: list.splits)
  have "\<forall>c \<in> set (takeWhile is_digit k). \<not> is_space c"
    by (auto dest: set_takeWhileD digit_not_space)
  moreover have "\<forall>c \<in> set (CHR ''.'' # b). \<not> is_space c"
    using b(3) by (auto simp: list_all_iff digit_not_space dot_not_space)
  ultimately have "\<forall>c \<in> set (takeWhile is_digit k @ dropWhile is_digit k). \<not> is_space c"
    using b(2) by auto
  moreover have "k \<noteq> []" using b(1) by auto
  ultimately show ?thesis by simp
qed

lemma no_space_trim:
  assumes "k \<noteq> []" "\<forall>c \<in> set k. \<not> is_space c"
  shows "rstrip (lstrip_nl k) = k" "strip k = k"
proof -
  from assms have h: "\<not> is_space (hd k)" "\<not> is_space (last k)" by auto
  then have "hd k \<noteq> NL" using is_space_NL by auto
  then show "rstrip (lstrip_nl k) = k" using h by (simp add: lstrip_nl_id rstrip_id)
  show "strip k = k" using h by (simp add: strip_id)
qed

lemma process_sections_misaligned:
  assumes "k \<noteq> []" "\<forall>c \<in> set k. \<not> is_space c"
  shows "process_sections (pre # k # rest) = Saved pre k # process_sections rest"
  using assms no_space_trim [OF assms] by (simp add: Let_def)

text \<open>
  C3: the text before the first marker line is dropped only when it is blank. When it is
  not, the list of pieces keeps it as its first element, the loop pairs it with the first
  marker's number, and the first unit written has the text before the first marker as
  its key and the number as its content; so for \<open>intro\<close>, \<open>--- 1.1\<close>, \<open>Alpha\<close> the text
  \<open>Alpha\<close> is written nowhere. The same holds for the script with plain numbers.
\<close>

theorem C3_premarker_text_becomes_key:
  "(strip pre \<noteq> [] \<and> re_split_header is_dotted_key content = pre # k # rest
      \<longrightarrow> bca_p_extract_commentary_sections content = Saved pre k # process_sections rest)
   \<and> (strip pre \<noteq> [] \<and> re_split_header is_num_key content = pre # k # rest
      \<longrightarrow> extract_mua_commentary content = Saved pre k # process_sections rest)
   \<and> bca_p_extract_commentary_sections ''intro\<newline>--- 1.1\<newline>Alpha\<newline>''
       = [Saved ''intro\<newline>'' ''1.1'']
   \<and> extract_mua_commentary ''intro\<newline>--- 1\<newline>Alpha\<newline>'' = [Saved ''intro\<newline>'' ''1'']"
proof (intro conjI impI)
  assume a: "strip pre \<noteq> [] \<and> re_split_header is_dotted_key content = pre # k # rest"
  then have "is_dotted_key k"
    unfolding re_split_header_def using re_split_lines_key by blast
  then have "k \<noteq> [] \<and> (\<forall>c \<in> set k. \<not> is_space c)" by (rule is_dotted_key_chars)
  then have "process_sections (pre # k # rest) = Saved pre k # process_sections rest"
    using process_sections_misaligned by blast
  with a show "bca_p_extract_commentary_sections content = Saved pre k # process_sections rest"
    by (simp add: bca_p_extract_commentary_sections_def drop_blank_head_def)
next
  assume a: "strip pre \<noteq> [] \<and> re_split_header is_num_key content = pre # k # rest"
  then have "is_num_key k"
    unfolding re_split_header_def using re_split_lines_key by blast
  then have "k \<noteq> [] \<and> (\<forall>c \<in> set k. \<not> is_space c)" by (rule is_num_key_chars)
  then have "process_sections (pre # k # rest) = Saved pre k # process_sections rest"
    using process_sections_misaligned by blast
  with a show "extract_mua_commentary content = Saved pre k # process_sections rest"
    by (simp add: extract_mua_commentary_def drop_blank_head_def)
next
  show "bca_p_extract_commentary_sections ''intro\<newline>--- 1.1\<newline>Alpha\<newline>''
       = [Saved ''intro\<newline>'' ''1.1'']"
    by code_simp
  show "extract_mua_commentary ''intro\<newline>--- 1\<newline>Alpha\<newline>'' = [Saved ''intro\<newline>'' ''1'']"
    by code_simp
qed

theorem C3_premarker_text_becomes_key_witness:
  "strip ''intro\<newline>'' \<noteq> []
   \<and> re_split_header is_dotted_key ''intro\<newline>--- 1.1\<newline>Alpha\<newline>''
        = [''intro\<newline>'', ''1.1'', ''\<newline>Alpha\<newline>'']
   \<and> bca_p_extract_commentary_sections ''intro\<newline>--- 1.1\<newline>Alpha\<newline>''
        = Saved ''intro\<newline>'' ''1.1'' # process_sections [''\<newline>Alpha\<newline>'']
   \<and> re_split_header is_num_key ''intro\<newline>--- 1\<newline>Alpha\<newline>''
        = [''intro\<newline>'', ''1'', ''\<newline>Alpha\<newline>'']
   \<and> extract_mua_commentary ''intro\<newline>--- 1\<newline>Alpha\<newline>''
        = Saved ''intro\<newline>'' ''1'' # process_sections [''\<newline>Alpha\<newline>'']"
proof -
  have a: "strip ''intro\<newline>'' \<noteq> []" by code_simp
  have b: "re_split_header is_dotted_key ''intro\<newline>--- 1.1\<newline>Alpha\<newline>''
        = [''intro\<newline>'', ''1.1'', ''\<newline>Alpha\<newline>'']"
    by code_simp
  have c: "re_split_header is_num_key ''intro\<newline>--- 1\<newline>Alpha\<newline>''
        = [''intro\<newline>'', ''1'', ''\<newline>Alpha\<newline>'']"
    by code_simp
  note t = C3_premarker_text_becomes_key [of "''intro\<newline>''"
      "''intro\<newline>--- 1.1\<newline>Alpha\<newline>''" "''1.1''" "[''\<newline>Alpha\<newline>'']"]
  note u = C3_premarker_text_becomes_key [of "''intro\<newline>''"
      "''intro\<newline>--- 1\<newline>Alpha\<newline>''" "''1''" "[''\<newline>Alpha\<newline>'']"]
  have d: "bca_p_extract_commentary_sections ''intro\<newline>--- 1.1\<newline>Alpha\<newline>''
        = Saved ''intro\<newline>'' ''1.1'' # process_sections [''\<newline>Alpha\<newline>'']"
    by (rule mp [OF conjunct1 [OF t] conjI [OF a b]])
  have e: "extract_mua_commentary ''intro\<newline>--- 1\<newline>Alpha\<newline>''
        = Saved ''intro\<newline>'' ''1'' # process_sections [''\<newline>Alpha\<newline>'']"
    by (rule mp [OF conjunct1 [OF conjunct2 [OF u]] conjI [OF a c]])
  from a b d c e show ?thesis by (intro conjI)
qed

section \<open>Properties of the verse-end scripts\<close>

lemma written_map_Saved: "written (map (\<lambda>(k, v). Saved k v) d) = d"
  by (induction d) auto

lemma update_set: "(a, b) \<in> set (AList.update k v d) \<Longrightarrow> (a, b) = (k, v) \<or> (a, b) \<in> set d"
  by (induction d) (auto split: if_splits)








lemma seni_group_ok:
  "\<forall>e \<in> set d. seni_entry_ok L e \<Longrightarrow> set cur \<subseteq> set L \<Longrightarrow> set ls \<subseteq> set L
     \<Longrightarrow> \<forall>e \<in> set (seni_group d cur ls). seni_entry_ok L e"
proof (induction ls arbitrary: d cur)
  case Nil
  then show ?case by simp
next
  case (Cons l ls)
  show ?case
  proof (cases "seni_marker l")
    case None
    then show ?thesis using Cons.IH [of d "cur @ [l]"] Cons.prems by simp
  next
    case (Some num)
    have new: "seni_entry_ok L (num, join [NL] (cur @ [l]))"
      unfolding seni_entry_ok_def using Some Cons.prems by auto
    have "\<forall>e \<in> set (AList.update num (join [NL] (cur @ [l])) d). seni_entry_ok L e"
    proof
      fix e assume "e \<in> set (AList.update num (join [NL] (cur @ [l])) d)"
      then have "e = (num, join [NL] (cur @ [l])) \<or> e \<in> set d"
        using update_set [of "fst e" "snd e"] by simp
      then show "seni_entry_ok L e" using new Cons.prems(1) by auto
    qed
    then show ?thesis using Cons.IH [of "AList.update num (join [NL] (cur @ [l])) d" "[]"] Cons.prems Some
      by simp
  qed
qed

lemma seni_units_ok:
  assumes "(k, c) \<in> set (written (seni_extract_root_verses content))"
  shows "seni_entry_ok (seni_verse_lines (split_nl content)) (k, c)"
proof -
  have "\<forall>e \<in> set (seni_group [] [] (seni_verse_lines (split_nl content))).
          seni_entry_ok (seni_verse_lines (split_nl content)) e"
    by (rule seni_group_ok) simp_all
  with assms show ?thesis
    by (simp add: seni_extract_root_verses_def written_map_Saved)
qed





lemma seni_group_no_marker:
  "\<forall>l \<in> set B. seni_marker l = None \<Longrightarrow> seni_group d cur B = d"
  by (induction B arbitrary: cur) auto

lemma seni_group_tail:
  "\<forall>l \<in> set B. seni_marker l = None \<Longrightarrow> seni_group d cur (A @ B) = seni_group d cur A"
proof (induction A arbitrary: d cur)
  case Nil
  then show ?case by (simp add: seni_group_no_marker)
next
  case (Cons a A)
  then show ?case by (cases "seni_marker a") simp_all
qed

lemma seni_verse_lines_append:
  "seni_verse_lines (xs @ ys) = seni_verse_lines xs @ seni_verse_lines ys"
  by (induction xs) auto

text \<open>
  C10: in the labeled verse-end extraction every unit written ends with a line that
  carries the marker of its key, and root lines after the last marker change nothing:
  appending lines without a marker to the document leaves the run as it was, so they
  are in no unit and no message is given about them.
\<close>

theorem C10_trailing_root_lines_dropped:
  "(\<forall>(k, c) \<in> set (written (seni_extract_root_verses content)).
       \<exists>pre l. c = join [NL] (pre @ [l]) \<and> seni_marker l = Some k)
   \<and> ((\<forall>l \<in> set (seni_verse_lines (split_nl tail)). seni_marker l = None)
        \<longrightarrow> seni_extract_root_verses (content @ NL # tail) = seni_extract_root_verses content)"
proof (intro conjI impI ballI)
  fix e assume e: "e \<in> set (written (seni_extract_root_verses content))"
  obtain k c where kc: "e = (k, c)" by (cases e)
  with e have "seni_entry_ok (seni_verse_lines (split_nl content)) (k, c)"
    using seni_units_ok by blast
  then show "case e of (k, c) \<Rightarrow> \<exists>pre l. c = join [NL] (pre @ [l]) \<and> seni_marker l = Some k"
    unfolding kc seni_entry_ok_def by auto
next
  assume "\<forall>l \<in> set (seni_verse_lines (split_nl tail)). seni_marker l = None"
  then show "seni_extract_root_verses (content @ NL # tail) = seni_extract_root_verses content"
    by (simp add: seni_extract_root_verses_def split_nl_append seni_verse_lines_append seni_group_tail)
qed

theorem C10_trailing_root_lines_dropped_witness:
  "seni_extract_root_verses (''> a || SeNi 1 ||'' @ NL # ''> b\<newline>> c'') = seni_extract_root_verses ''> a || SeNi 1 ||''
   \<and> seni_extract_root_verses ''> a || SeNi 1 ||'' = [Saved ''1'' ''a || SeNi 1 ||'']
   \<and> seni_verse_lines (split_nl ''> b\<newline>> c'') = [''b'', ''c'']
   \<and> (\<exists>pre l. ''a || SeNi 1 ||'' = join [NL] (pre @ [l]) \<and> seni_marker l = Some ''1'')"
proof -
  have h: "\<forall>l \<in> set (seni_verse_lines (split_nl ''> b\<newline>> c'')). seni_marker l = None"
    by code_simp
  have v: "seni_extract_root_verses ''> a || SeNi 1 ||'' = [Saved ''1'' ''a || SeNi 1 ||'']"
    by code_simp
  have w: "seni_verse_lines (split_nl ''> b\<newline>> c'') = [''b'', ''c'']"
    by code_simp
  note t = C10_trailing_root_lines_dropped [of "''> a || SeNi 1 ||''" "''> b\<newline>> c''"]
  have x: "seni_extract_root_verses (''> a || SeNi 1 ||'' @ NL # ''> b\<newline>> c'')
          = seni_extract_root_verses ''> a || SeNi 1 ||''"
    by (rule mp [OF conjunct2 [OF t] h])
  have m: "(''1'', ''a || SeNi 1 ||'') \<in> set (written (seni_extract_root_verses ''> a || SeNi 1 ||''))"
    unfolding v by simp
  have y: "\<exists>pre l. ''a || SeNi 1 ||'' = join [NL] (pre @ [l]) \<and> seni_marker l = Some ''1''"
    using bspec [OF conjunct1 [OF t] m] by (simp only: prod.case)
  from x v w y show ?thesis by (intro conjI)
qed

section \<open>Properties of the line-prefix script\<close>

lemma medu_commentary_lines_filter:
  "medu_commentary_lines ls = filter (\<lambda>l. l \<noteq> [] \<and> \<not> startswith l ''>'') ls"
  by (induction ls) auto

lemma medu_root_lines_filter:
  "medu_root_lines ls =
     map (drop 1) (filter (\<lambda>l. startswith l ''>'' \<and> strip (drop 1 l) \<noteq> []) ls)"
  by (induction ls) (auto simp: Let_def)

lemma split_dashes_plain: "CHR ''-'' \<notin> set s \<Longrightarrow> split_dashes cur s = [cur @ s]"
  by (induction s arbitrary: cur) (auto simp: startswith_def)

lemma set_join: "set (join sep ls) \<subseteq> set sep \<union> \<Union> (set ` set ls)"
  by (induction sep ls rule: join.induct) auto

lemma hd_join: "ls \<noteq> [] \<Longrightarrow> hd ls \<noteq> [] \<Longrightarrow> hd (join sep ls) = hd (hd ls)"
  by (induction sep ls rule: join.induct) auto

lemma join_nonempty: "ls \<noteq> [] \<Longrightarrow> hd ls \<noteq> [] \<Longrightarrow> join sep ls \<noteq> []"
  by (induction sep ls rule: join.induct) auto

lemma join_nonempty_last: "ls \<noteq> [] \<Longrightarrow> last ls \<noteq> [] \<Longrightarrow> join sep ls \<noteq> []"
  by (induction sep ls rule: join.induct) auto

lemma last_join: "ls \<noteq> [] \<Longrightarrow> last ls \<noteq> [] \<Longrightarrow> last (join sep ls) = last (last ls)"
proof (induction sep ls rule: join.induct)
  case (3 sep x y ys)
  then have "join sep (y # ys) \<noteq> []" by (intro join_nonempty_last) simp_all
  with 3 show ?case by simp
qed simp_all

lemma filter_partition_set:
  "set ls = set (filter P ls) \<union> set (filter (\<lambda>x. \<not> P x) ls)"
  by auto

lemma scenario_lines:
  assumes c: "filter (\<lambda>l. startswith l ''>'') ls = [''>line1'', ''>line2'']"
      and u: "filter (\<lambda>l. \<not> startswith l ''>'') ls = [''note'']"
  shows "medu_root_lines (split_nl (strip (join [NL] ls))) = [''line1'', ''line2'']"
    and "medu_commentary_lines (split_nl (strip (join [NL] ls))) = [''note'']"
    and "strip (join [NL] ls) \<noteq> []"
    and "CHR ''-'' \<notin> set (join [NL] ls)"
proof -
  let ?S = "{''>line1'', ''>line2'', ''note''}"
  have "set ls = set [''>line1'', ''>line2''] \<union> set [''note'']"
    using filter_partition_set [of ls "\<lambda>l. startswith l ''>''"] by (simp only: c u)
  then have sub: "set ls = ?S" by (simp only: set_simps Un_insert_left Un_empty_left)
  have ne: "ls \<noteq> []"
  proof
    assume "ls = []"
    with sub have "{} = ?S" by simp
    then show False by simp
  qed
  have p1: "''>line1'' \<noteq> [] \<and> NL \<notin> set ''>line1'' \<and> CHR ''-'' \<notin> set ''>line1''
                \<and> \<not> is_space (hd ''>line1'') \<and> \<not> is_space (last ''>line1'')"
    by (simp add: NL_def is_space_def)
  have p2: "''>line2'' \<noteq> [] \<and> NL \<notin> set ''>line2'' \<and> CHR ''-'' \<notin> set ''>line2''
                \<and> \<not> is_space (hd ''>line2'') \<and> \<not> is_space (last ''>line2'')"
    by (simp add: NL_def is_space_def)
  have p3: "''note'' \<noteq> [] \<and> NL \<notin> set ''note'' \<and> CHR ''-'' \<notin> set ''note''
                \<and> \<not> is_space (hd ''note'') \<and> \<not> is_space (last ''note'')"
    by (simp add: NL_def is_space_def)
  have el: "l \<noteq> [] \<and> NL \<notin> set l \<and> CHR ''-'' \<notin> set l
                \<and> \<not> is_space (hd l) \<and> \<not> is_space (last l)" if "l \<in> set ls" for l
  proof -
    from that have "l = ''>line1'' \<or> l = ''>line2'' \<or> l = ''note''"
      unfolding sub by simp
    then show ?thesis
    proof (elim disjE)
      assume a: "l = ''>line1''" show ?thesis unfolding a by (rule p1)
    next
      assume a: "l = ''>line2''" show ?thesis unfolding a by (rule p2)
    next
      assume a: "l = ''note''" show ?thesis unfolding a by (rule p3)
    qed
  qed
  have h: "hd ls \<in> set ls" "last ls \<in> set ls" using ne by auto
  have hn: "hd ls \<noteq> []" "last ls \<noteq> []" using el h by blast+
  have hs: "\<not> is_space (hd (hd ls))" "\<not> is_space (last (last ls))" using el h by blast+
  have j: "join [NL] ls \<noteq> []" by (rule join_nonempty [OF ne hn(1)])
  have "hd (join [NL] ls) = hd (hd ls)" by (rule hd_join [OF ne hn(1)])
  moreover have "last (join [NL] ls) = last (last ls)" by (rule last_join [OF ne hn(2)])
  ultimately have "\<not> is_space (hd (join [NL] ls)) \<and> \<not> is_space (last (join [NL] ls))"
    using hs by simp
  then have s: "strip (join [NL] ls) = join [NL] ls"
    by (intro strip_id) blast
  have nl: "\<forall>l \<in> set ls. NL \<notin> set l" using el by blast
  have sp: "split_nl (join [NL] ls) = ls"
    by (rule split_nl_join [OF ne nl])
  have f1: "filter (\<lambda>l. startswith l ''>'' \<and> strip (drop 1 l) \<noteq> []) ls
             = filter (\<lambda>l. strip (drop 1 l) \<noteq> []) (filter (\<lambda>l. startswith l ''>'') ls)"
    by (simp add: conj_commute)
  have f2: "filter (\<lambda>l. l \<noteq> [] \<and> \<not> startswith l ''>'') ls
             = filter (\<lambda>l. l \<noteq> []) (filter (\<lambda>l. \<not> startswith l ''>'') ls)"
    by (simp add: conj_commute)
  have st: "strip ''line1'' \<noteq> []" "strip ''line2'' \<noteq> []" by code_simp+
  show "medu_root_lines (split_nl (strip (join [NL] ls))) = [''line1'', ''line2'']"
    unfolding s sp medu_root_lines_filter f1 c using st by simp
  show "medu_commentary_lines (split_nl (strip (join [NL] ls))) = [''note'']"
    unfolding s sp medu_commentary_lines_filter f2 u by simp
  show "strip (join [NL] ls) \<noteq> []" unfolding s by (rule j)
  have sj: "set (join [NL] ls) \<subseteq> set [NL] \<union> \<Union> (set ` set ls)" by (rule set_join)
  have "CHR ''-'' \<notin> set [NL]" by (simp add: NL_def)
  moreover have "CHR ''-'' \<notin> \<Union> (set ` set ls)" using el by blast
  ultimately show "CHR ''-'' \<notin> set (join [NL] ls)" using sj by blast
qed

text \<open>
  C6: the commentary lines of a fragment are its lines that are not empty and do not start
  with \<open>>\<close>, wherever they stand, so no root line is among them. A fragment whose root
  lines are \<open>>line1\<close> and \<open>>line2\<close> and whose only other line is \<open>note\<close>, in any order,
  gives the root unit \<open>line1\<close>, newline, \<open>line2\<close> and the commentary unit \<open>note\<close>.
\<close>

theorem C6_root_and_commentary_lines:
  "medu_commentary_lines ls = filter (\<lambda>l. l \<noteq> [] \<and> \<not> startswith l ''>'') ls
   \<and> (\<forall>l \<in> set (medu_commentary_lines ls). \<not> startswith l ''>'')
   \<and> (filter (\<lambda>l. startswith l ''>'') ls = [''>line1'', ''>line2'']
        \<and> filter (\<lambda>l. \<not> startswith l ''>'') ls = [''note'']
      \<longrightarrow> medu_extract_root_verses (join [NL] ls) = [Saved 1 ''line1\<newline>line2'']
        \<and> medu_extract_commentary (join [NL] ls) = [Saved 1 ''note''])"
proof (intro conjI impI)
  show "medu_commentary_lines ls = filter (\<lambda>l. l \<noteq> [] \<and> \<not> startswith l ''>'') ls"
    by (rule medu_commentary_lines_filter)
  show "\<forall>l \<in> set (medu_commentary_lines ls). \<not> startswith l ''>''"
    by (simp add: medu_commentary_lines_filter)
next
  assume a: "filter (\<lambda>l. startswith l ''>'') ls = [''>line1'', ''>line2'']
        \<and> filter (\<lambda>l. \<not> startswith l ''>'') ls = [''note'']"
  note sc = scenario_lines [OF conjunct1 [OF a] conjunct2 [OF a]]
  have sd: "split_dashes [] (join [NL] ls) = [join [NL] ls]"
    using split_dashes_plain [OF sc(4), of "[]"] by simp
  have c1: "strip ''line1\<newline>line2'' = ''line1\<newline>line2''" by code_simp
  have c2: "strip ''note'' = ''note''" by code_simp
  have j: "join [NL] [''line1'', ''line2''] = ''line1\<newline>line2''" by code_simp
  show "medu_extract_root_verses (join [NL] ls) = [Saved 1 ''line1\<newline>line2'']"
    unfolding medu_extract_root_verses_def sd
    using sc(1,3) c1 j by (simp add: Let_def save_root_verse_def)
  show "medu_extract_commentary (join [NL] ls) = [Saved 1 ''note'']"
    unfolding medu_extract_commentary_def sd
    using sc(2,3) c2 by (simp add: Let_def)
qed

theorem C6_root_and_commentary_lines_witness:
  "medu_extract_root_verses ''>line1\<newline>note\<newline>>line2'' = [Saved 1 ''line1\<newline>line2'']
   \<and> medu_extract_commentary ''>line1\<newline>note\<newline>>line2'' = [Saved 1 ''note'']
   \<and> ''note'' \<in> set (medu_commentary_lines [''>line1'', ''note'', ''>line2''])
   \<and> \<not> startswith ''note'' ''>''"
proof -
  let ?ls = "[''>line1'', ''note'', ''>line2'']"
  have h: "filter (\<lambda>l. startswith l ''>'') ?ls = [''>line1'', ''>line2'']
        \<and> filter (\<lambda>l. \<not> startswith l ''>'') ?ls = [''note'']"
    by (simp add: startswith_def)
  have j: "join [NL] ?ls = ''>line1\<newline>note\<newline>>line2''" by code_simp
  have m: "''note'' \<in> set (medu_commentary_lines ?ls)" by code_simp
  note t = C6_root_and_commentary_lines [of ?ls]
  have "medu_extract_root_verses (join [NL] ?ls) = [Saved 1 ''line1\<newline>line2'']
        \<and> medu_extract_commentary (join [NL] ?ls) = [Saved 1 ''note'']"
    by (rule mp [OF conjunct2 [OF conjunct2 [OF t]] h])
  then have e: "medu_extract_root_verses ''>line1\<newline>note\<newline>>line2'' = [Saved 1 ''line1\<newline>line2'']
        \<and> medu_extract_commentary ''>line1\<newline>note\<newline>>line2'' = [Saved 1 ''note'']"
    unfolding j .
  have n: "\<not> startswith ''note'' ''>''"
    by (rule bspec [OF conjunct1 [OF conjunct2 [OF t]] m])
  show ?thesis
    by (intro conjI) (rule conjunct1 [OF e], rule conjunct2 [OF e], rule m, rule n)
qed

lemma medu_commentary_loop_append:
  "medu_commentary_loop vc (pre @ secs)
     = medu_commentary_loop vc pre
       @ medu_commentary_loop (vc + length (filter (\<lambda>s. strip s \<noteq> []) pre)) secs"
  by (induction pre arbitrary: vc) (simp_all add: Let_def)

lemma medu_root_loop_append:
  "medu_root_loop vc (pre @ secs)
     = medu_root_loop vc pre
       @ medu_root_loop
           (vc + length (filter (\<lambda>s. strip s \<noteq> [] \<and> medu_root_lines (split_nl (strip s)) \<noteq> []) pre))
           secs"
  by (induction pre arbitrary: vc) (simp_all add: Let_def)

text \<open>
  C5: the commentary loop counts every fragment that is not blank, the root loop only
  the fragments in which it found a root line: a fragment that comes after the fragments
  \<open>pre\<close> is numbered from the count of those of \<open>pre\<close> that are not blank in the one
  loop, and from the count of those that have a root line in the other. After a fragment
  without root lines the two counters differ: in \<open>intro\<close>, \<open>---\<close>, \<open>>a\<close>, \<open>>b\<close>, \<open>note\<close> the
  second fragment gives root unit 1 and commentary unit 2.
\<close>

theorem C5_keys_diverge:
  "medu_commentary_loop vc (pre @ secs)
     = medu_commentary_loop vc pre
       @ medu_commentary_loop (vc + length (filter (\<lambda>s. strip s \<noteq> []) pre)) secs
   \<and> medu_root_loop vc (pre @ secs)
     = medu_root_loop vc pre
       @ medu_root_loop
           (vc + length (filter (\<lambda>s. strip s \<noteq> [] \<and> medu_root_lines (split_nl (strip s)) \<noteq> []) pre))
           secs
   \<and> medu_extract_root_verses ''intro\<newline>---\<newline>>a\<newline>>b\<newline>note'' = [Saved 1 ''a\<newline>b'']
   \<and> medu_extract_commentary ''intro\<newline>---\<newline>>a\<newline>>b\<newline>note''
       = [Saved 1 ''intro'', Saved 2 ''note'']"
proof (intro conjI)
  show "medu_commentary_loop vc (pre @ secs)
     = medu_commentary_loop vc pre
       @ medu_commentary_loop (vc + length (filter (\<lambda>s. strip s \<noteq> []) pre)) secs"
    by (rule medu_commentary_loop_append)
  show "medu_root_loop vc (pre @ secs)
     = medu_root_loop vc pre
       @ medu_root_loop
           (vc + length (filter (\<lambda>s. strip s \<noteq> [] \<and> medu_root_lines (split_nl (strip s)) \<noteq> []) pre))
           secs"
    by (rule medu_root_loop_append)
  show "medu_extract_root_verses ''intro\<newline>---\<newline>>a\<newline>>b\<newline>note'' = [Saved 1 ''a\<newline>b'']"
    by code_simp
  show "medu_extract_commentary ''intro\<newline>---\<newline>>a\<newline>>b\<newline>note''
       = [Saved 1 ''intro'', Saved 2 ''note'']"
    by code_simp
qed

section \<open>No blank units\<close>
























section \<open>Where the content of a unit comes from\<close>


















end
